theory Spec2Isabelle
  imports Complex_Main "HOL-Library.Product_Lexorder" "HOL-Library.Multiset"
begin

section \<open>Values, errors and the library functions the program calls\<close>

text \<open>
  What \<^verbatim>\<open>json.loads\<close> can return: \<^verbatim>\<open>None\<close>, a bool, an int, a float, a str, a list
  or a dict. A dict is kept as an association list in insertion order. A float is
  kept as its (rational) value; the non-finite floats are left out, they are
  non-zero and behave like any other non-zero float here.
\<close>

datatype json =
    JNull
  | JBool bool
  | JInt int
  | JFloat rat
  | JString string
  | JArray "json list"
  | JObject "(string \<times> json) list"

text \<open>
  The exceptions of a run. \<^verbatim>\<open>StopIteration\<close> is not among them: the exhaustion of
  a generator is the value \<open>None\<close> of a pull. \<^verbatim>\<open>json.loads\<close> raises \<^verbatim>\<open>JSONDecodeError\<close> on
  text that is not JSON and \<^verbatim>\<open>UnicodeDecodeError\<close> on bytes that are not text.
\<close>

datatype py_error =
    FileExistsError string
  | FileNotFoundError string
  | IsADirectoryError string
  | JSONDecodeError string
  | UnicodeDecodeError string
  | TypeError string
  | ValueError string
  | AttributeError string

text \<open>
  A \<^verbatim>\<open>datetime\<close> without time zone: year, month, day, hour, minute, second. Python
  compares two of them field by field in this order, which is the lexicographic
  order of the tuple.
\<close>

type_synonym datetime = "nat \<times> nat \<times> nat \<times> nat \<times> nat \<times> nat"

text \<open>
  The three library functions of the program are parameters of the model:
  \<^verbatim>\<open>json.loads\<close> on one line of bytes, \<^verbatim>\<open>datetime.strptime\<close> on a string and a
  format, and \<^verbatim>\<open>json.dumps(...).encode('utf-8')\<close> on a value. Each is a function of
  its arguments only.
\<close>

record lib =
  json_loads :: "string \<Rightarrow> py_error + json"
  strptime :: "string \<Rightarrow> string \<Rightarrow> py_error + datetime"
  json_dumps :: "json \<Rightarrow> string"

definition LOG_FILENAME :: string where
  "LOG_FILENAME = ''merged_log.jsonl''"

definition DATE_TIME_FORMAT :: string where
  "DATE_TIME_FORMAT = ''%Y-%m-%d %H:%M:%S''"

text \<open>Python's truth value of a value, as \<^verbatim>\<open>while\<close>, \<^verbatim>\<open>if\<close>, \<^verbatim>\<open>and\<close>, \<^verbatim>\<open>not\<close> test it.\<close>

fun truthy :: "json \<Rightarrow> bool" where
  "truthy JNull = False"
| "truthy (JBool b) = b"
| "truthy (JInt n) = (n \<noteq> 0)"
| "truthy (JFloat x) = (x \<noteq> 0)"
| "truthy (JString s) = (s \<noteq> [])"
| "truthy (JArray xs) = (xs \<noteq> [])"
| "truthy (JObject kvs) = (kvs \<noteq> [])"

text \<open>
  The name of the type of a value, as the \<^verbatim>\<open>TypeError\<close> of \<^verbatim>\<open>strptime\<close> prints it (it
  prints \<^verbatim>\<open>None\<close> for \<^verbatim>\<open>None\<close>), and the name of its class, as an \<^verbatim>\<open>AttributeError\<close>
  prints it.
\<close>

fun type_name :: "json \<Rightarrow> string" where
  "type_name JNull = ''None''"
| "type_name (JBool b) = ''bool''"
| "type_name (JInt n) = ''int''"
| "type_name (JFloat x) = ''float''"
| "type_name (JString s) = ''str''"
| "type_name (JArray xs) = ''list''"
| "type_name (JObject kvs) = ''dict''"

fun class_name :: "json \<Rightarrow> string" where
  "class_name JNull = ''NoneType''"
| "class_name v = type_name v"

section \<open>The file system\<close>

text \<open>
  The part of the file system the program observes: which paths are directories,
  and the bytes of each regular file. A path is the string of the \<^verbatim>\<open>Path\<close> object:
  its components, separated by one \<^verbatim>\<open>/\<close>. Opening for writing creates the file empty,
  a write appends.
\<close>

record fs =
  dirs :: "string set"
  files :: "string \<rightharpoonup> string"

definition exists :: "fs \<Rightarrow> string \<Rightarrow> bool" where
  "exists s p = (p \<in> dirs s \<or> files s p \<noteq> None)"

definition is_file :: "fs \<Rightarrow> string \<Rightarrow> bool" where
  "is_file s p = (files s p \<noteq> None)"

text \<open>
  The ancestors of a path: what is left of it before each separator, the nearest
  to the root first. The root and the current directory are not among them; they
  always exist and are not recorded in \<open>dirs\<close>.
\<close>

fun path_parents :: "string \<Rightarrow> string \<Rightarrow> string list" where
  "path_parents acc [] = []"
| "path_parents acc (c # cs) =
     (if c = CHR 0x2F \<and> acc \<noteq> [] then acc # path_parents (acc @ [c]) cs
      else path_parents (acc @ [c]) cs)"

definition parents :: "string \<Rightarrow> string list" where
  "parents p = path_parents [] p"

text \<open>
  \<^verbatim>\<open>mkdir(parents=True)\<close> on a path that does not exist: the directory and those of
  its ancestors that are missing are made. Its failures (an ancestor that is a
  regular file, a refusal of the operating system) are not modelled.
\<close>

definition mkdir :: "fs \<Rightarrow> string \<Rightarrow> fs" where
  "mkdir s p = s\<lparr>dirs := insert p (set (parents p) \<union> dirs s)\<rparr>"

definition open_wb :: "fs \<Rightarrow> string \<Rightarrow> fs" where
  "open_wb s p = s\<lparr>files := (files s)(p \<mapsto> [])\<rparr>"

definition file_write :: "fs \<Rightarrow> string \<Rightarrow> string \<Rightarrow> fs" where
  "file_write s p b =
     s\<lparr>files := (files s)(p \<mapsto> (case files s p of None \<Rightarrow> b | Some c \<Rightarrow> c @ b))\<rparr>"

definition open_rb :: "fs \<Rightarrow> string \<Rightarrow> py_error + string" where
  "open_rb s p =
     (case files s p of
        Some b \<Rightarrow> Inr b
      | None \<Rightarrow> if p \<in> dirs s then Inl (IsADirectoryError p) else Inl (FileNotFoundError p))"

definition path_join :: "string \<Rightarrow> string \<Rightarrow> string" where
  "path_join d f = d @ ''/'' @ f"

text \<open>
  The lines of a file read in binary mode: each line ends after its newline byte,
  the last one may have none.
\<close>

fun split_lines :: "string \<Rightarrow> string \<Rightarrow> string list" where
  "split_lines acc [] = (if acc = [] then [] else [acc])"
| "split_lines acc (c # cs) =
     (if c = CHR 0x0A then (acc @ [c]) # split_lines [] cs
      else split_lines (acc @ [c]) cs)"

definition file_lines :: "string \<Rightarrow> string list" where
  "file_lines b = split_lines [] b"

section \<open>The record reader\<close>

text \<open>
  \<^verbatim>\<open>open_file_generator\<close>: a generator over the lines of the file, decoding one line
  at each pull. Its state is the list of the lines not yet read. A pull returns
  \<open>None\<close> at the end of the file (Python's \<^verbatim>\<open>StopIteration\<close>), the decoded line and
  the rest otherwise, and the decoder's error when the line does not decode.
\<close>

fun open_file_generator_next ::
  "lib \<Rightarrow> string list \<Rightarrow> py_error + (json \<times> string list) option" where
  "open_file_generator_next L [] = Inr None"
| "open_file_generator_next L (line # rest) =
     (case json_loads L line of
        Inl e \<Rightarrow> Inl e
      | Inr v \<Rightarrow> Inr (Some (v, rest)))"

text \<open>
  \<^verbatim>\<open>next_log\<close>: the next value of the generator, \<^verbatim>\<open>None\<close> when it is exhausted. Any
  other exception passes through.
\<close>

definition next_log :: "lib \<Rightarrow> string list \<Rightarrow> py_error + (json \<times> string list)" where
  "next_log L g =
     (case open_file_generator_next L g of
        Inl e \<Rightarrow> Inl e
      | Inr None \<Rightarrow> Inr (JNull, [])
      | Inr (Some (v, g')) \<Rightarrow> Inr (v, g'))"

section \<open>The timestamp extractor\<close>

text \<open>
  \<^verbatim>\<open>log_instance.get('timestamp')\<close>: only a dict has \<^verbatim>\<open>get\<close>; a missing key gives
  \<^verbatim>\<open>None\<close>.
\<close>

fun dict_get :: "json \<Rightarrow> string \<Rightarrow> py_error + json" where
  "dict_get (JObject kvs) k =
     (case map_of kvs k of None \<Rightarrow> Inr JNull | Some v \<Rightarrow> Inr v)"
| "dict_get v k =
     Inl (AttributeError ([CHR 0x27] @ class_name v @ [CHR 0x27] @
       '' object has no attribute '' @ [CHR 0x27] @ ''get'' @ [CHR 0x27]))"

text \<open>
  \<^verbatim>\<open>datetime.strptime\<close> takes a \<^verbatim>\<open>str\<close>; any other first argument is a \<^verbatim>\<open>TypeError\<close>
  before the format is looked at.
\<close>

fun datetime_strptime :: "lib \<Rightarrow> json \<Rightarrow> string \<Rightarrow> py_error + datetime" where
  "datetime_strptime L (JString s) fmt = strptime L s fmt"
| "datetime_strptime L v fmt =
     Inl (TypeError (''strptime() argument 1 must be str, not '' @ type_name v))"

definition get_log_time :: "lib \<Rightarrow> json \<Rightarrow> py_error + datetime" where
  "get_log_time L log_instance =
     (case dict_get log_instance ''timestamp'' of
        Inl e \<Rightarrow> Inl e
      | Inr v \<Rightarrow> datetime_strptime L v DATE_TIME_FORMAT)"

section \<open>The two-way merge engine\<close>

text \<open>
  \<^verbatim>\<open>sorted_log_generator\<close> is a generator, so its state between two pulls is the
  place where it is suspended together with its live variables:
  \<^item> \<open>Created p1 p2\<close>: the body has not started; no file has been opened;
  \<^item> \<open>Yielded1 g1 g2 file_log2\<close>: suspended at a \<^verbatim>\<open>yield file_log1\<close>; resuming it
    assigns \<^verbatim>\<open>file_log1\<close> from the first reader \<open>g1\<close>;
  \<^item> \<open>Yielded2 g1 g2 file_log1\<close>: suspended at a \<^verbatim>\<open>yield file_log2\<close>; resuming it
    assigns \<^verbatim>\<open>file_log2\<close> from the second reader \<open>g2\<close>;
  \<^item> \<open>Closed\<close>: the generator has returned or raised.
\<close>

datatype merge_gen =
    Created string string
  | Yielded1 "string list" "string list" json
  | Yielded2 "string list" "string list" json
  | Closed

text \<open>
  The \<^verbatim>\<open>while\<close> loop from one test of its condition to the next \<^verbatim>\<open>yield\<close>. The last
  \<^verbatim>\<open>elif\<close> has no \<^verbatim>\<open>else\<close>: were no branch taken, the loop would test its condition
  again with the same variables. The termination proof shows that this never
  happens.
\<close>

function while_loop ::
  "lib \<Rightarrow> string list \<Rightarrow> string list \<Rightarrow> json \<Rightarrow> json \<Rightarrow> py_error + (json \<times> merge_gen) option" where
  "while_loop L g1 g2 file_log1 file_log2 =
     (if truthy file_log1 \<or> truthy file_log2 then
        if truthy file_log1 \<and> truthy file_log2 then
          (case get_log_time L file_log1 of
             Inl e \<Rightarrow> Inl e
           | Inr t1 \<Rightarrow>
              (case get_log_time L file_log2 of
                 Inl e \<Rightarrow> Inl e
               | Inr t2 \<Rightarrow>
                  if t1 \<le> t2 then Inr (Some (file_log1, Yielded1 g1 g2 file_log2))
                  else Inr (Some (file_log2, Yielded2 g1 g2 file_log1))))
        else if \<not> truthy file_log1 then Inr (Some (file_log2, Yielded2 g1 g2 file_log1))
        else if \<not> truthy file_log2 then Inr (Some (file_log1, Yielded1 g1 g2 file_log2))
        else while_loop L g1 g2 file_log1 file_log2
      else Inr None)"
  by pat_completeness auto
termination
  by (relation "{}") auto

text \<open>
  One pull of the merged generator. The first pull runs the body from its start:
  it opens the first file and reads its first record, then the second file and
  its first record, and enters the loop.
\<close>

fun sorted_log_generator_next ::
  "lib \<Rightarrow> fs \<Rightarrow> merge_gen \<Rightarrow> py_error + (json \<times> merge_gen) option" where
  "sorted_log_generator_next L s (Created log1_path log2_path) =
     (case open_rb s log1_path of
        Inl e \<Rightarrow> Inl e
      | Inr b1 \<Rightarrow>
         (case next_log L (file_lines b1) of
            Inl e \<Rightarrow> Inl e
          | Inr (file_log1, g1) \<Rightarrow>
             (case open_rb s log2_path of
                Inl e \<Rightarrow> Inl e
              | Inr b2 \<Rightarrow>
                 (case next_log L (file_lines b2) of
                    Inl e \<Rightarrow> Inl e
                  | Inr (file_log2, g2) \<Rightarrow> while_loop L g1 g2 file_log1 file_log2))))"
| "sorted_log_generator_next L s (Yielded1 g1 g2 file_log2) =
     (case next_log L g1 of
        Inl e \<Rightarrow> Inl e
      | Inr (file_log1, g1') \<Rightarrow> while_loop L g1' g2 file_log1 file_log2)"
| "sorted_log_generator_next L s (Yielded2 g1 g2 file_log1) =
     (case next_log L g2 of
        Inl e \<Rightarrow> Inl e
      | Inr (file_log2, g2') \<Rightarrow> while_loop L g1 g2' file_log1 file_log2)"
| "sorted_log_generator_next L s Closed = Inr None"

text \<open>The loop with the branch that is never taken left out.\<close>

lemma while_loop_unfold:
  "while_loop L g1 g2 a b =
     (if truthy a \<and> truthy b then
        (case get_log_time L a of
           Inl e \<Rightarrow> Inl e
         | Inr t1 \<Rightarrow>
            (case get_log_time L b of
               Inl e \<Rightarrow> Inl e
             | Inr t2 \<Rightarrow>
                if t1 \<le> t2 then Inr (Some (a, Yielded1 g1 g2 b))
                else Inr (Some (b, Yielded2 g1 g2 a))))
      else if truthy b then Inr (Some (b, Yielded2 g1 g2 a))
      else if truthy a then Inr (Some (a, Yielded1 g1 g2 b))
      else Inr None)"
  by (simp add: while_loop.simps)

declare while_loop.simps [simp del]

text \<open>
  What is left to read and to emit in a state of the generator; every pull that
  yields makes it smaller, whatever the file system has become in between.
\<close>

fun gen_size :: "fs \<Rightarrow> merge_gen \<Rightarrow> nat" where
  "gen_size s (Created p1 p2) =
     (case open_rb s p1 of
        Inl e \<Rightarrow> 0
      | Inr b1 \<Rightarrow>
         (case open_rb s p2 of
            Inl e \<Rightarrow> 0
          | Inr b2 \<Rightarrow> length (file_lines b1) + length (file_lines b2) + 3))"
| "gen_size s (Yielded1 g1 g2 v) = length g1 + length g2 + (if truthy v then 1 else 0) + 1"
| "gen_size s (Yielded2 g1 g2 v) = length g1 + length g2 + (if truthy v then 1 else 0) + 1"
| "gen_size s Closed = 0"

lemma next_log_length:
  "next_log L g = Inr (v, g') \<Longrightarrow> length g' + (if truthy v then 1 else 0) \<le> length g"
  by (cases g) (auto simp: next_log_def split: sum.splits)

lemma while_loop_size:
  "while_loop L g1 g2 a b = Inr (Some (r, g')) \<Longrightarrow>
   gen_size s' g' <
     length g1 + length g2 + (if truthy a then 1 else 0) + (if truthy b then 1 else 0) + 1"
  by (auto simp: while_loop_unfold split: if_splits sum.splits)

lemma next_size:
  assumes "sorted_log_generator_next L s g = Inr (Some (r, g'))"
  shows "gen_size s' g' < gen_size s g"
proof (cases g)
  case (Created p1 p2)
  with assms show ?thesis
    by (auto split: sum.splits dest!: next_log_length while_loop_size[where s'=s'])
next
  case (Yielded1 g1 g2 v)
  with assms show ?thesis
    by (auto split: sum.splits dest!: next_log_length while_loop_size[where s'=s'])
next
  case (Yielded2 g1 g2 v)
  with assms show ?thesis
    by (auto split: sum.splits dest!: next_log_length while_loop_size[where s'=s'])
next
  case Closed
  with assms show ?thesis by simp
qed

text \<open>
  The merged output sequence: the records the generator yields when it is pulled
  until it stops, and the exception that stopped it, if one did.
\<close>

function collect :: "lib \<Rightarrow> fs \<Rightarrow> merge_gen \<Rightarrow> json list \<times> py_error option" where
  "collect L s g =
     (case sorted_log_generator_next L s g of
        Inl e \<Rightarrow> ([], Some e)
      | Inr None \<Rightarrow> ([], None)
      | Inr (Some (log_entry, g')) \<Rightarrow>
          (case collect L s g' of (rs, e) \<Rightarrow> (log_entry # rs, e)))"
  by pat_completeness auto
termination
  by (relation "measure (\<lambda>(L, s, g). gen_size s g)") (auto dest: next_size)

declare collect.simps [simp del]

section \<open>The sink writer\<close>

text \<open>
  The \<^verbatim>\<open>for\<close> loop of \<^verbatim>\<open>create_output_file\<close>: pull a record, encode it, write the line,
  until the generator stops or raises. The \<^verbatim>\<open>with\<close> block closes the file on both
  ways out, so what was written stays in the file.
\<close>

function write_records ::
  "lib \<Rightarrow> fs \<Rightarrow> string \<Rightarrow> merge_gen \<Rightarrow> (py_error + unit) \<times> fs \<times> merge_gen" where
  "write_records L s output_file_path g =
     (case sorted_log_generator_next L s g of
        Inl e \<Rightarrow> (Inl e, s, Closed)
      | Inr None \<Rightarrow> (Inr (), s, Closed)
      | Inr (Some (log_entry, g')) \<Rightarrow>
          write_records L
            (file_write s output_file_path (json_dumps L log_entry @ [CHR 0x0A]))
            output_file_path g')"
  by pat_completeness auto
termination
  by (relation "measure (\<lambda>(L, s, p, g). gen_size s g)") (auto dest: next_size)

declare write_records.simps [simp del]

text \<open>
  \<^verbatim>\<open>create_output_file\<close> returns the outcome, the file system it leaves and the
  state it leaves the generator in.
\<close>

definition create_output_file ::
  "lib \<Rightarrow> fs \<Rightarrow> string \<Rightarrow> merge_gen \<Rightarrow> (py_error + unit) \<times> fs \<times> merge_gen" where
  "create_output_file L s output_dir merged_log_generator =
     (if exists s output_dir then
        (Inl (FileExistsError (''Folder \"'' @ output_dir @ ''\" already exists.'')),
         s, merged_log_generator)
      else
        let s1 = mkdir s output_dir;
            output_file_path = path_join output_dir LOG_FILENAME;
            s2 = open_wb s1 output_file_path
        in write_records L s2 output_file_path merged_log_generator)"

section \<open>The program\<close>

text \<open>
  \<^verbatim>\<open>main\<close> on the three parsed arguments. The \<^verbatim>\<open>timeit\<close> wrapper only measures and
  prints the time of a run that returns; it passes the result and every exception
  through and is left out.
\<close>

definition main :: "lib \<Rightarrow> fs \<Rightarrow> string \<Rightarrow> string \<Rightarrow> string \<Rightarrow> (py_error + unit) \<times> fs" where
  "main L s path_to_log1 path_to_log2 path_to_merged_log =
     (if is_file s path_to_log1 \<and> is_file s path_to_log2 then
        let merged_log_generator = Created path_to_log1 path_to_log2
        in (case create_output_file L s path_to_merged_log merged_log_generator of
              (r, s', g) \<Rightarrow> (r, s'))
      else (Inl (FileExistsError ''Log files do not exist or paths are incorrect.''), s))"

section \<open>Well-formed inputs and the merge of two record sequences\<close>

text \<open>
  A record is well formed when it is a dict whose \<^verbatim>\<open>'timestamp'\<close> is a string that
  \<^verbatim>\<open>strptime\<close> parses with the fixed format. Such a dict is not empty, so it counts
  as true wherever the loop tests it.
\<close>

definition valid_record :: "lib \<Rightarrow> json \<Rightarrow> bool" where
  "valid_record L v =
     (case v of
        JObject kvs \<Rightarrow>
          (case map_of kvs ''timestamp'' of
             Some (JString ts) \<Rightarrow>
               (case strptime L ts DATE_TIME_FORMAT of Inr t \<Rightarrow> True | Inl e \<Rightarrow> False)
           | _ \<Rightarrow> False)
      | _ \<Rightarrow> False)"

text \<open>
  The order the loop compares in: both instants are extracted and the first is not
  later than the second.
\<close>

definition time_le :: "lib \<Rightarrow> json \<Rightarrow> json \<Rightarrow> bool" where
  "time_le L a b =
     (case get_log_time L a of
        Inl e \<Rightarrow> False
      | Inr ta \<Rightarrow> (case get_log_time L b of Inl e \<Rightarrow> False | Inr tb \<Rightarrow> ta \<le> tb))"

text \<open>The bytes \<open>b\<close> of a file decode, line by line, to the records \<open>recs\<close>.\<close>

definition decodes :: "lib \<Rightarrow> string \<Rightarrow> json list \<Rightarrow> bool" where
  "decodes L b recs = (map (json_loads L) (file_lines b) = map Inr recs)"

text \<open>
  The merge of two sequences of records as a list function, to compare the
  generator with: the head of the first sequence goes first unless it is later
  than the head of the second.
\<close>

fun merge_recs :: "lib \<Rightarrow> json list \<Rightarrow> json list \<Rightarrow> json list" where
  "merge_recs L [] ys = ys"
| "merge_recs L xs [] = xs"
| "merge_recs L (x # xs) (y # ys) =
     (if time_le L x y then x # merge_recs L xs (y # ys) else y # merge_recs L (x # xs) ys)"

text \<open>
  What one side still has to give, seen from its peek slot \<open>v\<close> and the unread lines
  \<open>g\<close> of its reader: the slot and the records the lines decode to, or nothing when
  the slot is false.
\<close>

definition pending :: "lib \<Rightarrow> json \<Rightarrow> string list \<Rightarrow> json list \<Rightarrow> bool" where
  "pending L v g p =
     (if truthy v then \<exists>r. p = v # r \<and> map (json_loads L) g = map Inr r else p = [])"

text \<open>A generator that has started: it no longer looks at the file system.\<close>

fun started :: "merge_gen \<Rightarrow> bool" where
  "started (Created p1 p2) = False"
| "started g = True"

section \<open>What the writer leaves behind\<close>

text \<open>The lines the writer appends for a sequence of records, and the file system after.\<close>

definition encode_lines :: "lib \<Rightarrow> json list \<Rightarrow> string" where
  "encode_lines L rs = concat (map (\<lambda>r. json_dumps L r @ [CHR 0x0A]) rs)"

fun write_all :: "lib \<Rightarrow> fs \<Rightarrow> string \<Rightarrow> json list \<Rightarrow> fs" where
  "write_all L s p [] = s"
| "write_all L s p (r # rs) = write_all L (file_write s p (json_dumps L r @ [CHR 0x0A])) p rs"

definition outcome :: "py_error option \<Rightarrow> py_error + unit" where
  "outcome e = (case e of None \<Rightarrow> Inr () | Some x \<Rightarrow> Inl x)"

section \<open>Readers that differ only behind a false record\<close>

text \<open>
  \<open>tail_cut L g g'\<close>: the unread lines \<open>g\<close> are the lines \<open>g'\<close>, possibly followed by a
  line that decodes to a false value and by anything after it. Two peek slots
  agree when they hold the same record over such readers, or when both are false.
\<close>

definition tail_cut :: "lib \<Rightarrow> string list \<Rightarrow> string list \<Rightarrow> bool" where
  "tail_cut L g g' =
     (g = g' \<or> (\<exists>l v post. g = g' @ l # post \<and> json_loads L l = Inr v \<and> \<not> truthy v))"

definition slot_rel :: "lib \<Rightarrow> json \<Rightarrow> string list \<Rightarrow> json \<Rightarrow> string list \<Rightarrow> bool" where
  "slot_rel L a g a' g' = ((a = a' \<and> tail_cut L g g') \<or> (\<not> truthy a \<and> \<not> truthy a'))"

fun gen_rel :: "lib \<Rightarrow> merge_gen \<Rightarrow> merge_gen \<Rightarrow> bool" where
  "gen_rel L (Yielded1 g1 g2 b) (Yielded1 g1' g2' b') =
     (tail_cut L g1 g1' \<and> slot_rel L b g2 b' g2')"
| "gen_rel L (Yielded2 g1 g2 a) (Yielded2 g1' g2' a') =
     (slot_rel L a g1 a' g1' \<and> tail_cut L g2 g2')"
| "gen_rel L Closed Closed = True"
| "gen_rel L g g' = False"

text \<open>
  Two outcomes of a pull agree when they are the same exception, both the end of
  the generator, or the same record with states that agree.
\<close>

fun res_rel ::
  "lib \<Rightarrow> py_error + (json \<times> merge_gen) option \<Rightarrow> py_error + (json \<times> merge_gen) option \<Rightarrow> bool"
  where
  "res_rel L (Inl e) (Inl e') = (e = e')"
| "res_rel L (Inr None) (Inr None) = True"
| "res_rel L (Inr (Some (r, g))) (Inr (Some (r', g'))) = (r = r' \<and> gen_rel L g g')"
| "res_rel L x y = False"

section \<open>A small library and a small file system for the examples\<close>

text \<open>
  The examples run the program on a few short files. Three records, two of them
  with the same instant, and the text \<^verbatim>\<open>json.dumps\<close> gives for each:
\<close>

definition rec_a1 :: json where
  "rec_a1 = JObject [(''timestamp'', JString ''2024-01-01 10:00:00''), (''m'', JString ''a1'')]"

definition rec_b1 :: json where
  "rec_b1 = JObject [(''timestamp'', JString ''2024-01-01 10:00:00''), (''m'', JString ''b1'')]"

definition rec_b2 :: json where
  "rec_b2 = JObject [(''timestamp'', JString ''2024-01-01 11:00:00''), (''m'', JString ''b2'')]"

definition text_a1 :: string where
  "text_a1 = ''{\"timestamp\": \"2024-01-01 10:00:00\", \"m\": \"a1\"}''"

definition text_b1 :: string where
  "text_b1 = ''{\"timestamp\": \"2024-01-01 10:00:00\", \"m\": \"b1\"}''"

definition text_b2 :: string where
  "text_b2 = ''{\"timestamp\": \"2024-01-01 11:00:00\", \"m\": \"b2\"}''"

text \<open>The text of the empty dict, and a line that is not JSON.\<close>

definition text_empty :: string where
  "text_empty = ''{}''"

definition text_bad :: string where
  "text_bad = ''not json''"

definition ex_table :: "(string \<times> json) list" where
  "ex_table =
     [(text_a1, rec_a1), (text_b1, rec_b1), (text_b2, rec_b2), (text_empty, JObject [])]"

definition ex_times :: "(string \<times> datetime) list" where
  "ex_times =
     [(''2024-01-01 10:00:00'', (2024, 1, 1, 10, 0, 0)),
      (''2024-01-01 11:00:00'', (2024, 1, 1, 11, 0, 0))]"

text \<open>
  On the lines, strings and records of the table, the three functions below
  return what \<^verbatim>\<open>json.loads\<close>, \<^verbatim>\<open>datetime.strptime\<close> and \<^verbatim>\<open>json.dumps\<close> return in Python.
  The only other line the examples decode is \<^verbatim>\<open>not json\<close>, on which \<^verbatim>\<open>json.loads\<close> fails
  with the message of \<open>ex_decode_error\<close>.
\<close>

definition ex_decode_error :: py_error where
  "ex_decode_error = JSONDecodeError ''Expecting value: line 1 column 1 (char 0)''"

definition ex_loads :: "string \<Rightarrow> py_error + json" where
  "ex_loads line =
     (case map_of ex_table (takeWhile (\<lambda>c. c \<noteq> CHR 0x0A) line) of
        Some v \<Rightarrow> Inr v
      | None \<Rightarrow> Inl ex_decode_error)"

definition ex_strptime :: "string \<Rightarrow> string \<Rightarrow> py_error + datetime" where
  "ex_strptime x fmt =
     (case map_of ex_times x of
        Some t \<Rightarrow> Inr t
      | None \<Rightarrow>
          Inl (ValueError (''time data '' @ [CHR 0x27] @ x @ [CHR 0x27] @
            '' does not match format '' @ [CHR 0x27] @ fmt @ [CHR 0x27])))"

definition ex_dumps :: "json \<Rightarrow> string" where
  "ex_dumps v =
     (case find (\<lambda>(t, w). w = v) ex_table of
        Some (t, w) \<Rightarrow> t
      | None \<Rightarrow> ''null'')"

definition ex_lib :: lib where
  "ex_lib = \<lparr>json_loads = ex_loads, strptime = ex_strptime, json_dumps = ex_dumps\<rparr>"

text \<open>The bytes of a file that holds the given texts, one on each line.\<close>

definition file_of :: "string list \<Rightarrow> string" where
  "file_of ts = concat (map (\<lambda>t. t @ [CHR 0x0A]) ts)"

definition ex_fs :: fs where
  "ex_fs =
     \<lparr>dirs = {''merged''},
      files =
        [''a.jsonl'' \<mapsto> file_of [text_a1],
         ''b.jsonl'' \<mapsto> file_of [text_b1, text_b2],
         ''empty.jsonl'' \<mapsto> file_of [],
         ''cut.jsonl'' \<mapsto> file_of [text_a1, text_empty, text_b2],
         ''bad.jsonl'' \<mapsto> file_of [text_bad],
         ''bad2.jsonl'' \<mapsto> file_of [text_b1, text_bad]]\<rparr>"

section \<open>Properties of the model\<close>

lemma valid_record_truthy: "valid_record L v \<Longrightarrow> truthy v"
  by (auto simp: valid_record_def split: json.splits option.splits)

lemma valid_record_time:
  assumes "valid_record L v"
  shows "\<exists>t. get_log_time L v = Inr t"
proof (cases v)
  case (JObject kvs)
  with assms obtain x where x: "map_of kvs ''timestamp'' = Some x"
    by (auto simp: valid_record_def split: option.splits)
  with assms JObject obtain ts where ts: "x = JString ts"
    by (cases x) (auto simp: valid_record_def)
  with assms JObject x obtain t where "strptime L ts DATE_TIME_FORMAT = Inr t"
    by (cases "strptime L ts DATE_TIME_FORMAT") (simp_all add: valid_record_def)
  with JObject x ts show ?thesis by (intro exI[of _ t]) (simp add: get_log_time_def)
qed (use assms in \<open>simp_all add: valid_record_def\<close>)

lemma time_le_total:
  assumes "valid_record L a" "valid_record L b" "\<not> time_le L a b"
  shows "time_le L b a"
proof -
  obtain ta where ta: "get_log_time L a = Inr ta" using valid_record_time[OF assms(1)] by blast
  obtain tb where tb: "get_log_time L b = Inr tb" using valid_record_time[OF assms(2)] by blast
  from assms(3) ta tb have "\<not> ta \<le> tb" by (simp add: time_le_def)
  then have "tb \<le> ta" by (rule linorder_class.nle_le[THEN iffD1, THEN conjunct1])
  with ta tb show ?thesis by (simp add: time_le_def)
qed

lemma time_le_trans:
  assumes "time_le L a b" "time_le L b c"
  shows "time_le L a c"
proof -
  from assms(1) obtain ta tb where ta: "get_log_time L a = Inr ta"
    and tb: "get_log_time L b = Inr tb" and ab: "ta \<le> tb"
    by (cases "get_log_time L a"; cases "get_log_time L b") (simp_all add: time_le_def)
  from assms(2) tb obtain tc where tc: "get_log_time L c = Inr tc" and bc: "tb \<le> tc"
    by (cases "get_log_time L c") (simp_all add: time_le_def)
  from ab bc have "ta \<le> tc" by (rule order_trans)
  with ta tc show ?thesis by (simp add: time_le_def)
qed

lemma set_merge_recs: "set (merge_recs L xs ys) = set xs \<union> set ys"
  by (induction L xs ys rule: merge_recs.induct) auto


lemma sorted_merge_recs:
  "list_all (valid_record L) xs \<Longrightarrow> list_all (valid_record L) ys \<Longrightarrow>
   sorted_wrt (time_le L) xs \<Longrightarrow> sorted_wrt (time_le L) ys \<Longrightarrow>
   sorted_wrt (time_le L) (merge_recs L xs ys)"
proof (induction L xs ys rule: merge_recs.induct)
  case (3 L x xs y ys)
  show ?case
  proof (cases "time_le L x y")
    case True
    with 3 have "sorted_wrt (time_le L) (merge_recs L xs (y # ys))" by simp
    moreover have "\<forall>z \<in> set xs \<union> set (y # ys). time_le L x z"
      using 3(5,6) True by (auto intro: time_le_trans)
    ultimately show ?thesis using True by (simp add: set_merge_recs)
  next
    case False
    from 3(3,4) have "valid_record L x" "valid_record L y" by simp_all
    then have yx: "time_le L y x" using False by (rule time_le_total)
    from False 3 have "sorted_wrt (time_le L) (merge_recs L (x # xs) ys)" by simp
    moreover have "\<forall>z \<in> set (x # xs) \<union> set ys. time_le L y z"
      using 3(5,6) yx by (auto intro: time_le_trans)
    ultimately show ?thesis using False by (simp add: set_merge_recs)
  qed
qed simp_all

lemma next_log_decoded_Nil: "next_log L [] = Inr (JNull, [])"
  by (simp add: next_log_def)

lemma next_log_decoded_Cons:
  "json_loads L l = Inr v \<Longrightarrow> next_log L (l # g) = Inr (v, g)"
  by (simp add: next_log_def)

lemma collect_step:
  "sorted_log_generator_next L s g = Inr (Some (r, g')) \<Longrightarrow>
   collect L s g = (r # fst (collect L s g'), snd (collect L s g'))"
  by (subst collect.simps) (simp add: case_prod_beta)

lemma collect_stop:
  "sorted_log_generator_next L s g = Inr None \<Longrightarrow> collect L s g = ([], None)"
  by (subst collect.simps) simp

lemma collect_error:
  "sorted_log_generator_next L s g = Inl e \<Longrightarrow> collect L s g = ([], Some e)"
  by (subst collect.simps) simp

lemma collect_merge:
  "length r1 + length p2 = n \<Longrightarrow> map (json_loads L) g1 = map Inr r1 \<Longrightarrow> pending L b g2 p2 \<Longrightarrow>
     list_all (valid_record L) r1 \<Longrightarrow> list_all (valid_record L) p2 \<Longrightarrow>
     collect L s (Yielded1 g1 g2 b) = (merge_recs L r1 p2, None)"
  "length p1 + length r2 = n \<Longrightarrow> pending L a g1 p1 \<Longrightarrow> map (json_loads L) g2 = map Inr r2 \<Longrightarrow>
     list_all (valid_record L) p1 \<Longrightarrow> list_all (valid_record L) r2 \<Longrightarrow>
     collect L s (Yielded2 g1 g2 a) = (merge_recs L p1 r2, None)"
proof (induction n arbitrary: r1 p2 g1 g2 b p1 r2 a rule: less_induct)
  case (less n)
  note IH1 = less.IH(1) and IH2 = less.IH(2)
  {
    case 1
    show ?case
    proof (cases r1)
      case Nil
      with 1 have g1: "g1 = []" by simp
      show ?thesis
      proof (cases "truthy b")
        case True
        with 1 obtain r2 where p2: "p2 = b # r2" and d2: "map (json_loads L) g2 = map Inr r2"
          by (auto simp: pending_def)
        have nx: "sorted_log_generator_next L s (Yielded1 g1 g2 b) = Inr (Some (b, Yielded2 [] g2 JNull))"
          using True g1 by (simp add: next_log_decoded_Nil while_loop_unfold)
        have pe: "pending L JNull [] []" by (simp add: pending_def)
        have lt: "length ([]::json list) + length r2 < n" using 1(1) p2 by simp
        have v2: "list_all (valid_record L) r2" using 1(5) p2 by simp
        have "collect L s (Yielded2 [] g2 JNull) = (merge_recs L [] r2, None)"
          by (rule IH2[OF lt refl pe d2 _ v2]) simp
        then show ?thesis using collect_step[OF nx] Nil p2 by simp
      next
        case False
        with 1 have p2: "p2 = []" by (simp add: pending_def)
        have nx: "sorted_log_generator_next L s (Yielded1 g1 g2 b) = Inr None"
          using False g1 by (simp add: next_log_decoded_Nil while_loop_unfold)
        show ?thesis using collect_stop[OF nx] Nil p2 by simp
      qed
    next
      case (Cons x r1')
      with 1 obtain l g1' where g1: "g1 = l # g1'" and lx: "json_loads L l = Inr x"
        and d1: "map (json_loads L) g1' = map Inr r1'" by (cases g1) auto
      from 1 Cons have vx: "valid_record L x" and vr1': "list_all (valid_record L) r1'" by simp_all
      have tx: "truthy x" using vx by (rule valid_record_truthy)
      obtain t1 where t1: "get_log_time L x = Inr t1" using valid_record_time[OF vx] by blast
      have nl: "next_log L g1 = Inr (x, g1')" using g1 lx by (simp add: next_log_decoded_Cons)
      show ?thesis
      proof (cases "truthy b")
        case True
        with 1 obtain r2 where p2: "p2 = b # r2" and d2: "map (json_loads L) g2 = map Inr r2"
          by (auto simp: pending_def)
        from 1 p2 have vb: "valid_record L b" and vr2: "list_all (valid_record L) r2" by simp_all
        obtain t2 where t2: "get_log_time L b = Inr t2" using valid_record_time[OF vb] by blast
        show ?thesis
        proof (cases "t1 \<le> t2")
          case le: True
          have nx: "sorted_log_generator_next L s (Yielded1 g1 g2 b) = Inr (Some (x, Yielded1 g1' g2 b))"
            using True tx t1 t2 le nl by (simp add: while_loop_unfold)
          have lt: "length r1' + length p2 < n" using 1(1) Cons by simp
          have "collect L s (Yielded1 g1' g2 b) = (merge_recs L r1' p2, None)"
            by (rule IH1[OF lt refl d1 1(3) vr1' 1(5)])
          then show ?thesis using collect_step[OF nx] Cons p2 t1 t2 le by (simp add: time_le_def)
        next
          case gt: False
          have nx: "sorted_log_generator_next L s (Yielded1 g1 g2 b) = Inr (Some (b, Yielded2 g1' g2 x))"
            using True tx t1 t2 gt nl by (simp add: while_loop_unfold)
          have pe: "pending L x g1' (x # r1')" using tx d1 by (simp add: pending_def)
          have lt: "length (x # r1') + length r2 < n" using 1(1) Cons p2 by simp
          have v1: "list_all (valid_record L) (x # r1')" using vx vr1' by simp
          have "collect L s (Yielded2 g1' g2 x) = (merge_recs L (x # r1') r2, None)"
            by (rule IH2[OF lt refl pe d2 v1 vr2])
          then show ?thesis using collect_step[OF nx] Cons p2 t1 t2 gt by (simp add: time_le_def)
        qed
      next
        case False
        with 1 have p2: "p2 = []" by (simp add: pending_def)
        have nx: "sorted_log_generator_next L s (Yielded1 g1 g2 b) = Inr (Some (x, Yielded1 g1' g2 b))"
          using False tx nl by (simp add: while_loop_unfold)
        have lt: "length r1' + length p2 < n" using 1(1) Cons by simp
        have "collect L s (Yielded1 g1' g2 b) = (merge_recs L r1' p2, None)"
          by (rule IH1[OF lt refl d1 1(3) vr1' 1(5)])
        then show ?thesis using collect_step[OF nx] Cons p2 by (cases r1') simp_all
      qed
    qed
  next
    case 2
    show ?case
    proof (cases r2)
      case Nil
      with 2 have g2: "g2 = []" by simp
      show ?thesis
      proof (cases "truthy a")
        case True
        with 2 obtain r1 where p1: "p1 = a # r1" and d1: "map (json_loads L) g1 = map Inr r1"
          by (auto simp: pending_def)
        have nx: "sorted_log_generator_next L s (Yielded2 g1 g2 a) = Inr (Some (a, Yielded1 g1 [] JNull))"
          using True g2 by (simp add: next_log_decoded_Nil while_loop_unfold)
        have pe: "pending L JNull [] []" by (simp add: pending_def)
        have lt: "length r1 + length ([]::json list) < n" using 2(1) p1 by simp
        have v1: "list_all (valid_record L) r1" using 2(4) p1 by simp
        have "collect L s (Yielded1 g1 [] JNull) = (merge_recs L r1 [], None)"
          by (rule IH1[OF lt refl d1 pe v1]) simp
        then show ?thesis using collect_step[OF nx] Nil p1 by (cases r1) simp_all
      next
        case False
        with 2 have p1: "p1 = []" by (simp add: pending_def)
        have nx: "sorted_log_generator_next L s (Yielded2 g1 g2 a) = Inr None"
          using False g2 by (simp add: next_log_decoded_Nil while_loop_unfold)
        show ?thesis using collect_stop[OF nx] Nil p1 by simp
      qed
    next
      case (Cons y r2')
      with 2 obtain l g2' where g2: "g2 = l # g2'" and ly: "json_loads L l = Inr y"
        and d2: "map (json_loads L) g2' = map Inr r2'" by (cases g2) auto
      from 2 Cons have vy: "valid_record L y" and vr2': "list_all (valid_record L) r2'" by simp_all
      have ty: "truthy y" using vy by (rule valid_record_truthy)
      obtain t2 where t2: "get_log_time L y = Inr t2" using valid_record_time[OF vy] by blast
      have nl: "next_log L g2 = Inr (y, g2')" using g2 ly by (simp add: next_log_decoded_Cons)
      show ?thesis
      proof (cases "truthy a")
        case True
        with 2 obtain r1 where p1: "p1 = a # r1" and d1: "map (json_loads L) g1 = map Inr r1"
          by (auto simp: pending_def)
        from 2 p1 have va: "valid_record L a" and vr1: "list_all (valid_record L) r1" by simp_all
        obtain t1 where t1: "get_log_time L a = Inr t1" using valid_record_time[OF va] by blast
        show ?thesis
        proof (cases "t1 \<le> t2")
          case le: True
          have nx: "sorted_log_generator_next L s (Yielded2 g1 g2 a) = Inr (Some (a, Yielded1 g1 g2' y))"
            using True ty t1 t2 le nl by (simp add: while_loop_unfold)
          have pe: "pending L y g2' (y # r2')" using ty d2 by (simp add: pending_def)
          have lt: "length r1 + length (y # r2') < n" using 2(1) Cons p1 by simp
          have v2: "list_all (valid_record L) (y # r2')" using vy vr2' by simp
          have "collect L s (Yielded1 g1 g2' y) = (merge_recs L r1 (y # r2'), None)"
            by (rule IH1[OF lt refl d1 pe vr1 v2])
          then show ?thesis using collect_step[OF nx] Cons p1 t1 t2 le by (simp add: time_le_def)
        next
          case gt: False
          have nx: "sorted_log_generator_next L s (Yielded2 g1 g2 a) = Inr (Some (y, Yielded2 g1 g2' a))"
            using True ty t1 t2 gt nl by (simp add: while_loop_unfold)
          have lt: "length p1 + length r2' < n" using 2(1) Cons by simp
          have "collect L s (Yielded2 g1 g2' a) = (merge_recs L p1 r2', None)"
            by (rule IH2[OF lt refl 2(2) d2 2(4) vr2'])
          then show ?thesis using collect_step[OF nx] Cons p1 t1 t2 gt by (simp add: time_le_def)
        qed
      next
        case False
        with 2 have p1: "p1 = []" by (simp add: pending_def)
        have nx: "sorted_log_generator_next L s (Yielded2 g1 g2 a) = Inr (Some (y, Yielded2 g1 g2' a))"
          using False ty nl by (simp add: while_loop_unfold)
        have lt: "length p1 + length r2' < n" using 2(1) Cons by simp
        have "collect L s (Yielded2 g1 g2' a) = (merge_recs L p1 r2', None)"
          by (rule IH2[OF lt refl 2(2) d2 2(4) vr2'])
        then show ?thesis using collect_step[OF nx] Cons p1 by simp
      qed
    qed
  }
qed

lemma merge_recs_Nil2: "merge_recs L xs [] = xs"
  by (cases xs) simp_all

lemma next_log_pending:
  assumes "map (json_loads L) g = map Inr recs" "list_all (valid_record L) recs"
  shows "\<exists>v g'. next_log L g = Inr (v, g') \<and> pending L v g' recs"
proof (cases recs)
  case Nil
  with assms have "g = []" by simp
  then show ?thesis using Nil by (simp add: next_log_decoded_Nil pending_def)
next
  case (Cons x recs')
  with assms obtain l g' where g: "g = l # g'" and lx: "json_loads L l = Inr x"
    and d: "map (json_loads L) g' = map Inr recs'" by (cases g) auto
  from assms(2) Cons have "valid_record L x" by simp
  then have "truthy x" by (rule valid_record_truthy)
  then have "pending L x g' recs" using Cons d by (simp add: pending_def)
  then show ?thesis using g lx by (simp add: next_log_decoded_Cons)
qed

text \<open>The loop entered with both peek slots filled from well-formed sides.\<close>

lemma loop_merge:
  assumes pa: "pending L a g1 p1" and pb: "pending L b g2 p2"
    and v1: "list_all (valid_record L) p1" and v2: "list_all (valid_record L) p2"
  shows "\<exists>r g'. (while_loop L g1 g2 a b = Inr None \<and> merge_recs L p1 p2 = []) \<or>
           (while_loop L g1 g2 a b = Inr (Some (r, g')) \<and>
            merge_recs L p1 p2 = r # fst (collect L s g') \<and> snd (collect L s g') = None)"
proof (cases "truthy a")
  case ta: True
  with pa obtain r1 where p1: "p1 = a # r1" and d1: "map (json_loads L) g1 = map Inr r1"
    by (auto simp: pending_def)
  from v1 p1 have va: "valid_record L a" and vr1: "list_all (valid_record L) r1" by simp_all
  obtain t1 where t1: "get_log_time L a = Inr t1" using valid_record_time[OF va] by blast
  show ?thesis
  proof (cases "truthy b")
    case tb: True
    with pb obtain r2 where p2: "p2 = b # r2" and d2: "map (json_loads L) g2 = map Inr r2"
      by (auto simp: pending_def)
    from v2 p2 have vb: "valid_record L b" and vr2: "list_all (valid_record L) r2" by simp_all
    obtain t2 where t2: "get_log_time L b = Inr t2" using valid_record_time[OF vb] by blast
    show ?thesis
    proof (cases "t1 \<le> t2")
      case le: True
      have w: "while_loop L g1 g2 a b = Inr (Some (a, Yielded1 g1 g2 b))"
        using ta tb t1 t2 le by (simp add: while_loop_unfold)
      have c: "collect L s (Yielded1 g1 g2 b) = (merge_recs L r1 p2, None)"
        by (rule collect_merge(1)[OF refl d1 pb vr1 v2])
      have "merge_recs L p1 p2 = a # merge_recs L r1 p2"
        using p1 p2 t1 t2 le by (simp add: time_le_def)
      with w c show ?thesis by simp
    next
      case gt: False
      have w: "while_loop L g1 g2 a b = Inr (Some (b, Yielded2 g1 g2 a))"
        using ta tb t1 t2 gt by (simp add: while_loop_unfold)
      have c: "collect L s (Yielded2 g1 g2 a) = (merge_recs L p1 r2, None)"
        by (rule collect_merge(2)[OF refl pa d2 v1 vr2])
      have "merge_recs L p1 p2 = b # merge_recs L p1 r2"
        using p1 p2 t1 t2 gt by (simp add: time_le_def)
      with w c show ?thesis by simp
    qed
  next
    case fb: False
    with pb have p2: "p2 = []" by (simp add: pending_def)
    have w: "while_loop L g1 g2 a b = Inr (Some (a, Yielded1 g1 g2 b))"
      using ta fb by (simp add: while_loop_unfold)
    have c: "collect L s (Yielded1 g1 g2 b) = (merge_recs L r1 p2, None)"
      by (rule collect_merge(1)[OF refl d1 pb vr1 v2])
    have "merge_recs L p1 p2 = a # merge_recs L r1 p2"
      using p1 p2 by (simp add: merge_recs_Nil2)
    with w c show ?thesis by simp
  qed
next
  case fa: False
  with pa have p1: "p1 = []" by (simp add: pending_def)
  show ?thesis
  proof (cases "truthy b")
    case tb: True
    with pb obtain r2 where p2: "p2 = b # r2" and d2: "map (json_loads L) g2 = map Inr r2"
      by (auto simp: pending_def)
    from v2 p2 have vr2: "list_all (valid_record L) r2" by simp
    have w: "while_loop L g1 g2 a b = Inr (Some (b, Yielded2 g1 g2 a))"
      using fa tb by (simp add: while_loop_unfold)
    have c: "collect L s (Yielded2 g1 g2 a) = (merge_recs L p1 r2, None)"
      by (rule collect_merge(2)[OF refl pa d2 v1 vr2])
    with w p1 p2 show ?thesis by simp
  next
    case fb: False
    with pb have p2: "p2 = []" by (simp add: pending_def)
    have "while_loop L g1 g2 a b = Inr None"
      using fa fb by (simp add: while_loop_unfold)
    with p1 p2 show ?thesis by simp
  qed
qed

text \<open>
  The whole run of the generator on two files of well-formed records: it yields
  the merge of the two sequences and stops without an exception.
\<close>

lemma collect_created_merge:
  assumes f1: "files s p1 = Some b1" and f2: "files s p2 = Some b2"
    and d1: "decodes L b1 recs1" and d2: "decodes L b2 recs2"
    and v1: "list_all (valid_record L) recs1" and v2: "list_all (valid_record L) recs2"
  shows "collect L s (Created p1 p2) = (merge_recs L recs1 recs2, None)"
proof -
  from d1 v1 obtain a g1 where n1: "next_log L (file_lines b1) = Inr (a, g1)"
    and pa: "pending L a g1 recs1"
    using next_log_pending[of L "file_lines b1" recs1] by (auto simp: decodes_def)
  from d2 v2 obtain b g2 where n2: "next_log L (file_lines b2) = Inr (b, g2)"
    and pb: "pending L b g2 recs2"
    using next_log_pending[of L "file_lines b2" recs2] by (auto simp: decodes_def)
  have nx: "sorted_log_generator_next L s (Created p1 p2) = while_loop L g1 g2 a b"
    using f1 f2 n1 n2 by (simp add: open_rb_def)
  from loop_merge[OF pa pb v1 v2, of s] obtain r g' where
    "(while_loop L g1 g2 a b = Inr None \<and> merge_recs L recs1 recs2 = []) \<or>
     (while_loop L g1 g2 a b = Inr (Some (r, g')) \<and>
      merge_recs L recs1 recs2 = r # fst (collect L s g') \<and> snd (collect L s g') = None)"
    by blast
  then show ?thesis
  proof
    assume "while_loop L g1 g2 a b = Inr None \<and> merge_recs L recs1 recs2 = []"
    then show ?thesis using nx by (simp add: collect_stop)
  next
    assume h: "while_loop L g1 g2 a b = Inr (Some (r, g')) \<and>
      merge_recs L recs1 recs2 = r # fst (collect L s g') \<and> snd (collect L s g') = None"
    then have "sorted_log_generator_next L s (Created p1 p2) = Inr (Some (r, g'))"
      using nx by simp
    from collect_step[OF this] h show ?thesis by simp
  qed
qed

text \<open>Once started, the generator does not look at the file system again.\<close>

lemma while_loop_started:
  "while_loop L g1 g2 a b = Inr (Some (r, g')) \<Longrightarrow> started g'"
  by (auto simp: while_loop_unfold split: if_splits sum.splits)

lemma next_started:
  "sorted_log_generator_next L s g = Inr (Some (r, g')) \<Longrightarrow> started g'"
  by (cases g) (auto split: sum.splits dest: while_loop_started)

lemma next_fs_indep:
  "started g \<Longrightarrow> sorted_log_generator_next L s' g = sorted_log_generator_next L s g"
  by (cases g) simp_all

lemma collect_fs_indep:
  "started g \<Longrightarrow> collect L s' g = collect L s g"
proof (induction "gen_size s g" arbitrary: g rule: less_induct)
  case less
  note eq = next_fs_indep[OF less.prems, of L s' s]
  show ?case
  proof (cases "sorted_log_generator_next L s g")
    case (Inl e)
    then show ?thesis using eq by (simp add: collect_error)
  next
    case (Inr y)
    show ?thesis
    proof (cases y)
      case None
      with Inr show ?thesis using eq by (simp add: collect_stop)
    next
      case (Some rg)
      obtain r g' where rg: "rg = (r, g')" by (cases rg)
      have nx: "sorted_log_generator_next L s g = Inr (Some (r, g'))"
        using Inr Some rg by simp
      have nx': "sorted_log_generator_next L s' g = Inr (Some (r, g'))"
        using nx eq by simp
      have "collect L s' g' = collect L s g'"
        by (rule less.hyps[OF next_size[OF nx] next_started[OF nx]])
      then show ?thesis using collect_step[OF nx] collect_step[OF nx'] by simp
    qed
  qed
qed

text \<open>The writing loop writes the records of the run, in order, and ends as the run ends.\<close>

lemma write_records_collect:
  "write_records L s p g =
     (outcome (snd (collect L s g)), write_all L s p (fst (collect L s g)), Closed)"
proof (induction "gen_size s g" arbitrary: s g rule: less_induct)
  case less
  show ?case
  proof (cases "sorted_log_generator_next L s g")
    case (Inl e)
    then have "write_records L s p g = (Inl e, s, Closed)"
      by (subst write_records.simps) simp
    then show ?thesis using Inl by (simp add: collect_error outcome_def)
  next
    case (Inr y)
    show ?thesis
    proof (cases y)
      case None
      with Inr have "write_records L s p g = (Inr (), s, Closed)"
        by (subst write_records.simps) simp
      then show ?thesis using Inr None by (simp add: collect_stop outcome_def)
    next
      case (Some rg)
      obtain r g' where rg: "rg = (r, g')" by (cases rg)
      have nx: "sorted_log_generator_next L s g = Inr (Some (r, g'))"
        using Inr Some rg by simp
      let ?s = "file_write s p (json_dumps L r @ [CHR 0x0A])"
      have w: "write_records L s p g = write_records L ?s p g'"
        using nx by (subst write_records.simps) simp
      have "write_records L ?s p g' =
        (outcome (snd (collect L ?s g')), write_all L ?s p (fst (collect L ?s g')), Closed)"
        by (rule less.hyps[OF next_size[OF nx]])
      moreover have "collect L ?s g' = collect L s g'"
        by (rule collect_fs_indep[OF next_started[OF nx]])
      ultimately show ?thesis using w collect_step[OF nx] by simp
    qed
  qed
qed

lemma files_write_all:
  "files s p = Some c \<Longrightarrow> files (write_all L s p rs) = (files s)(p \<mapsto> c @ encode_lines L rs)"
proof (induction rs arbitrary: s c)
  case Nil
  then show ?case by (auto simp: encode_lines_def)
next
  case (Cons r rs)
  let ?s = "file_write s p (json_dumps L r @ [CHR 0x0A])"
  have "files ?s p = Some (c @ json_dumps L r @ [CHR 0x0A])"
    using Cons.prems by (simp add: file_write_def)
  from Cons.IH[OF this] show ?case
    using Cons.prems by (auto simp: file_write_def encode_lines_def fun_eq_iff)
qed

lemma dirs_write_all: "dirs (write_all L s p rs) = dirs s"
  by (induction rs arbitrary: s) (simp_all add: file_write_def)

lemma create_output_file_collect:
  assumes "\<not> exists s output_dir"
  shows "create_output_file L s output_dir g =
     (outcome (snd (collect L (open_wb (mkdir s output_dir) (path_join output_dir LOG_FILENAME)) g)),
      write_all L (open_wb (mkdir s output_dir) (path_join output_dir LOG_FILENAME))
        (path_join output_dir LOG_FILENAME)
        (fst (collect L (open_wb (mkdir s output_dir) (path_join output_dir LOG_FILENAME)) g)),
      Closed)"
  using assms by (simp add: create_output_file_def Let_def write_records_collect)

text \<open>
  Two runs whose readers differ only behind a false record take the same steps:
  the lines behind it are never read.
\<close>

lemma next_log_rel:
  assumes "tail_cut L g g'"
  shows "(\<exists>e. next_log L g = Inl e \<and> next_log L g' = Inl e) \<or>
         (\<exists>a h a' h'. next_log L g = Inr (a, h) \<and> next_log L g' = Inr (a', h') \<and>
            slot_rel L a h a' h')"
proof (cases g')
  case Nil
  from assms consider "g = []" |
    l v post where "g = l # post" "json_loads L l = Inr v" "\<not> truthy v"
    using Nil by (auto simp: tail_cut_def)
  then show ?thesis
  proof cases
    case 1
    with Nil show ?thesis by (simp add: next_log_decoded_Nil slot_rel_def tail_cut_def)
  next
    case 2
    with Nil show ?thesis
      by (simp add: next_log_decoded_Nil next_log_decoded_Cons slot_rel_def)
  qed
next
  case (Cons x r)
  from assms Cons obtain h where g: "g = x # h" and t: "tail_cut L h r"
    by (auto simp: tail_cut_def)
  show ?thesis
  proof (cases "json_loads L x")
    case (Inl e)
    with g Cons show ?thesis by (simp add: next_log_def)
  next
    case (Inr w)
    with g Cons t show ?thesis by (simp add: next_log_decoded_Cons slot_rel_def)
  qed
qed

lemma while_loop_rel:
  assumes "slot_rel L a g1 a' g1'" "slot_rel L b g2 b' g2'"
  shows "res_rel L (while_loop L g1 g2 a b) (while_loop L g1' g2' a' b')"
proof -
  have ta: "truthy a' = truthy a" and tb: "truthy b' = truthy b"
    using assms by (auto simp: slot_rel_def)
  show ?thesis
  proof (cases "truthy a")
    case True
    with assms(1) have a: "a' = a" and c1: "tail_cut L g1 g1'" by (auto simp: slot_rel_def)
    show ?thesis
    proof (cases "truthy b")
      case tb': True
      with assms(2) have b: "b' = b" and c2: "tail_cut L g2 g2'" by (auto simp: slot_rel_def)
      show ?thesis
      proof (cases "get_log_time L a")
        case (Inl e)
        then show ?thesis using True tb' a b by (simp add: while_loop_unfold)
      next
        case t1: (Inr t1)
        show ?thesis
        proof (cases "get_log_time L b")
          case (Inl e)
          then show ?thesis using True tb' a b t1 by (simp add: while_loop_unfold)
        next
          case t2: (Inr t2)
          show ?thesis using True tb' a b t1 t2 c1 c2 assms
            by (simp add: while_loop_unfold)
        qed
      qed
    next
      case False
      then show ?thesis using True a tb c1 assms(2) by (simp add: while_loop_unfold)
    qed
  next
    case False
    show ?thesis
    proof (cases "truthy b")
      case True
      with assms(2) have b: "b' = b" and c2: "tail_cut L g2 g2'" by (auto simp: slot_rel_def)
      show ?thesis using False True ta b c2 assms(1) by (simp add: while_loop_unfold)
    next
      case fb: False
      show ?thesis using False fb ta tb by (simp add: while_loop_unfold)
    qed
  qed
qed

lemma res_rel_InlD: "res_rel L (Inl e) y \<Longrightarrow> y = Inl e"
  by (cases y) simp_all

lemma res_rel_NoneD: "res_rel L (Inr None) y \<Longrightarrow> y = Inr None"
proof (cases y)
  case (Inr z)
  assume "res_rel L (Inr None) y"
  with Inr show ?thesis by (cases z) auto
qed simp

lemma res_rel_SomeD:
  "res_rel L (Inr (Some (r, h))) y \<Longrightarrow> \<exists>h'. y = Inr (Some (r, h')) \<and> gen_rel L h h'"
proof (cases y)
  case (Inr z)
  assume "res_rel L (Inr (Some (r, h))) y"
  with Inr show ?thesis by (cases z) auto
qed simp

lemma next_rel:
  assumes "gen_rel L g g'"
  shows "res_rel L (sorted_log_generator_next L s g) (sorted_log_generator_next L s' g')"
proof (cases g)
  case (Created p1 p2)
  with assms show ?thesis by simp
next
  case (Yielded1 g1 g2 b)
  with assms obtain g1' g2' b' where g': "g' = Yielded1 g1' g2' b'"
    and c1: "tail_cut L g1 g1'" and sb: "slot_rel L b g2 b' g2'"
    by (cases g') simp_all
  from next_log_rel[OF c1] show ?thesis
  proof (elim disjE exE conjE)
    fix e assume "next_log L g1 = Inl e" "next_log L g1' = Inl e"
    then show ?thesis using Yielded1 g' by simp
  next
    fix a h a' h'
    assume "next_log L g1 = Inr (a, h)" "next_log L g1' = Inr (a', h')" "slot_rel L a h a' h'"
    then show ?thesis using Yielded1 g' while_loop_rel[OF _ sb] by simp
  qed
next
  case (Yielded2 g1 g2 a)
  with assms obtain g1' g2' a' where g': "g' = Yielded2 g1' g2' a'"
    and sa: "slot_rel L a g1 a' g1'" and c2: "tail_cut L g2 g2'"
    by (cases g') simp_all
  from next_log_rel[OF c2] show ?thesis
  proof (elim disjE exE conjE)
    fix e assume "next_log L g2 = Inl e" "next_log L g2' = Inl e"
    then show ?thesis using Yielded2 g' by simp
  next
    fix b h b' h'
    assume "next_log L g2 = Inr (b, h)" "next_log L g2' = Inr (b', h')" "slot_rel L b h b' h'"
    then show ?thesis using Yielded2 g' while_loop_rel[OF sa] by simp
  qed
next
  case Closed
  with assms have "g' = Closed" by (cases g') simp_all
  with Closed show ?thesis by simp
qed

lemma collect_res_rel:
  assumes rel: "res_rel L (sorted_log_generator_next L s g) (sorted_log_generator_next L s' g')"
    and step: "\<And>r h h'. sorted_log_generator_next L s g = Inr (Some (r, h)) \<Longrightarrow>
       gen_rel L h h' \<Longrightarrow> collect L s h = collect L s' h'"
  shows "collect L s g = collect L s' g'"
proof (cases "sorted_log_generator_next L s g")
  case (Inl e)
  with rel have "sorted_log_generator_next L s' g' = Inl e"
    by (simp add: res_rel_InlD)
  with Inl show ?thesis by (simp add: collect_error)
next
  case (Inr y)
  show ?thesis
  proof (cases y)
    case None
    with rel Inr have "sorted_log_generator_next L s' g' = Inr None"
      by (simp add: res_rel_NoneD)
    with Inr None show ?thesis by (simp add: collect_stop)
  next
    case (Some rh)
    obtain r h where rh: "rh = (r, h)" by (cases rh)
    have nx: "sorted_log_generator_next L s g = Inr (Some (r, h))" using Inr Some rh by simp
    with rel have "res_rel L (Inr (Some (r, h))) (sorted_log_generator_next L s' g')" by simp
    from res_rel_SomeD[OF this]
    obtain h' where nx': "sorted_log_generator_next L s' g' = Inr (Some (r, h'))"
      and gr: "gen_rel L h h'" by blast
    from step[OF nx gr] show ?thesis using collect_step[OF nx] collect_step[OF nx'] by simp
  qed
qed

lemma collect_rel:
  "gen_rel L g g' \<Longrightarrow> collect L s g = collect L s' g'"
proof (induction "gen_size s g" arbitrary: g g' rule: less_induct)
  case less
  show ?case
  proof (rule collect_res_rel)
    show "res_rel L (sorted_log_generator_next L s g) (sorted_log_generator_next L s' g')"
      by (rule next_rel[OF less.prems])
  next
    fix r h h'
    assume nx: "sorted_log_generator_next L s g = Inr (Some (r, h))" and gr: "gen_rel L h h'"
    show "collect L s h = collect L s' h'"
      by (rule less.hyps[OF next_size[OF nx] gr])
  qed
qed

lemma created_rel:
  assumes f1: "files s p1 = Some b1" and f2: "files s p2 = Some b2"
    and f1': "files s' p1' = Some b1'" and f2': "files s' p2' = Some b2'"
    and c1: "tail_cut L (file_lines b1) (file_lines b1')"
    and c2: "tail_cut L (file_lines b2) (file_lines b2')"
  shows "collect L s (Created p1 p2) = collect L s' (Created p1' p2')"
proof (rule collect_res_rel)
  from next_log_rel[OF c1]
  show "res_rel L (sorted_log_generator_next L s (Created p1 p2))
          (sorted_log_generator_next L s' (Created p1' p2'))"
  proof (elim disjE exE conjE)
    fix e assume "next_log L (file_lines b1) = Inl e" "next_log L (file_lines b1') = Inl e"
    then show ?thesis using f1 f1' by (simp add: open_rb_def)
  next
    fix a h a' h'
    assume n1: "next_log L (file_lines b1) = Inr (a, h)"
      "next_log L (file_lines b1') = Inr (a', h')" and sa: "slot_rel L a h a' h'"
    from next_log_rel[OF c2] show ?thesis
    proof (elim disjE exE conjE)
      fix e assume "next_log L (file_lines b2) = Inl e" "next_log L (file_lines b2') = Inl e"
      then show ?thesis using f1 f1' f2 f2' n1 by (simp add: open_rb_def)
    next
      fix b k b' k'
      assume "next_log L (file_lines b2) = Inr (b, k)"
        "next_log L (file_lines b2') = Inr (b', k')" and sb: "slot_rel L b k b' k'"
      then show ?thesis using f1 f1' f2 f2' n1 while_loop_rel[OF sa sb]
        by (simp add: open_rb_def)
    qed
  qed
next
  fix r h h'
  assume "gen_rel L h h'"
  then show "collect L s h = collect L s' h'" by (rule collect_rel)
qed

text \<open>The example library and files, evaluated.\<close>

lemma split_lines_line:
  "CHR 0x0A \<notin> set t \<Longrightarrow>
   split_lines acc (t @ CHR 0x0A # rest) = (acc @ t @ [CHR 0x0A]) # split_lines [] rest"
  by (induction t arbitrary: acc) auto

lemma file_lines_file_of:
  "list_all (\<lambda>t. CHR 0x0A \<notin> set t) ts \<Longrightarrow>
   file_lines (file_of ts) = map (\<lambda>t. t @ [CHR 0x0A]) ts"
  unfolding file_lines_def file_of_def
  by (induction ts) (simp_all add: split_lines_line)

lemma ex_texts_one_line:
  "CHR 0x0A \<notin> set text_a1" "CHR 0x0A \<notin> set text_b1" "CHR 0x0A \<notin> set text_b2"
  "CHR 0x0A \<notin> set text_empty" "CHR 0x0A \<notin> set text_bad"
  by (simp_all add: text_a1_def text_b1_def text_b2_def text_empty_def text_bad_def)

lemma ex_loads_line:
  "CHR 0x0A \<notin> set t \<Longrightarrow>
   json_loads ex_lib (t @ [CHR 0x0A]) =
     (case map_of ex_table t of Some v \<Rightarrow> Inr v | None \<Rightarrow> Inl ex_decode_error)"
proof -
  assume "CHR 0x0A \<notin> set t"
  then have "takeWhile (\<lambda>c. c \<noteq> CHR 0x0A) (t @ [CHR 0x0A]) = t"
    by (induction t) auto
  then show ?thesis by (simp add: ex_lib_def ex_loads_def)
qed

lemma ex_loads_values:
  "json_loads ex_lib (text_a1 @ [CHR 0x0A]) = Inr rec_a1"
  "json_loads ex_lib (text_b1 @ [CHR 0x0A]) = Inr rec_b1"
  "json_loads ex_lib (text_b2 @ [CHR 0x0A]) = Inr rec_b2"
  "json_loads ex_lib (text_empty @ [CHR 0x0A]) = Inr (JObject [])"
  "json_loads ex_lib (text_bad @ [CHR 0x0A]) = Inl ex_decode_error"
  by (simp_all add: ex_loads_line ex_texts_one_line)
     (simp_all add: ex_table_def text_a1_def text_b1_def text_b2_def text_empty_def
       text_bad_def)

lemma ex_times_values:
  "get_log_time ex_lib rec_a1 = Inr (2024, 1, 1, 10, 0, 0)"
  "get_log_time ex_lib rec_b1 = Inr (2024, 1, 1, 10, 0, 0)"
  "get_log_time ex_lib rec_b2 = Inr (2024, 1, 1, 11, 0, 0)"
  by (simp_all add: get_log_time_def rec_a1_def rec_b1_def rec_b2_def ex_lib_def
      ex_strptime_def ex_times_def)

lemma ex_valid:
  "valid_record ex_lib rec_a1" "valid_record ex_lib rec_b1" "valid_record ex_lib rec_b2"
  by (simp_all add: valid_record_def rec_a1_def rec_b1_def rec_b2_def ex_lib_def
      ex_strptime_def ex_times_def)

lemma ex_truthy: "truthy rec_a1" "truthy rec_b1" "truthy rec_b2"
  by (simp_all add: rec_a1_def rec_b1_def rec_b2_def)

lemma ex_time_le:
  "time_le ex_lib rec_a1 rec_b1" "time_le ex_lib rec_b1 rec_b2" "time_le ex_lib rec_a1 rec_b2"
  by (simp_all add: time_le_def ex_times_values)

lemma ex_dumps_values:
  "json_dumps ex_lib rec_a1 = text_a1" "json_dumps ex_lib rec_b1 = text_b1"
  "json_dumps ex_lib rec_b2 = text_b2"
  by (simp_all add: ex_lib_def ex_dumps_def ex_table_def rec_a1_def rec_b1_def rec_b2_def)

lemma ex_files:
  "files ex_fs ''a.jsonl'' = Some (file_of [text_a1])"
  "files ex_fs ''b.jsonl'' = Some (file_of [text_b1, text_b2])"
  "files ex_fs ''empty.jsonl'' = Some []"
  "files ex_fs ''cut.jsonl'' = Some (file_of [text_a1, text_empty, text_b2])"
  "files ex_fs ''bad.jsonl'' = Some (file_of [text_bad])"
  "files ex_fs ''bad2.jsonl'' = Some (file_of [text_b1, text_bad])"
  by (simp_all add: ex_fs_def file_of_def)

lemma ex_decodes:
  "decodes ex_lib (file_of [text_a1]) [rec_a1]"
  "decodes ex_lib (file_of [text_b1, text_b2]) [rec_b1, rec_b2]"
  "decodes ex_lib [] []"
  by (simp_all add: decodes_def file_lines_file_of ex_texts_one_line ex_loads_values)
     (simp add: file_lines_def)

text \<open>
  The run on \<^verbatim>\<open>a.jsonl\<close> and \<^verbatim>\<open>bad2.jsonl\<close>, whose second line does not decode: two
  records are yielded, then the decoder's exception ends the run.
\<close>

lemma ex_run_bad2:
  assumes "files s ''a.jsonl'' = Some (file_of [text_a1])"
    and "files s ''bad2.jsonl'' = Some (file_of [text_b1, text_bad])"
  shows "collect ex_lib s (Created ''a.jsonl'' ''bad2.jsonl'') =
    ([rec_a1, rec_b1], Some ex_decode_error)"
proof -
  let ?bad = "text_bad @ [CHR 0x0A]"
  have n1: "sorted_log_generator_next ex_lib s (Created ''a.jsonl'' ''bad2.jsonl'') =
      Inr (Some (rec_a1, Yielded1 [] [?bad] rec_b1))"
    using assms
    by (simp add: open_rb_def file_lines_file_of ex_texts_one_line next_log_def
        ex_loads_values while_loop_unfold ex_truthy ex_times_values)
  have n2: "sorted_log_generator_next ex_lib s (Yielded1 [] [?bad] rec_b1) =
      Inr (Some (rec_b1, Yielded2 [] [?bad] JNull))"
    by (simp add: next_log_def while_loop_unfold ex_truthy)
  have n3: "sorted_log_generator_next ex_lib s (Yielded2 [] [?bad] JNull) = Inl ex_decode_error"
    by (simp add: next_log_def ex_loads_values)
  show ?thesis
    by (simp add: collect_step[OF n1] collect_step[OF n2] collect_error[OF n3])
qed

lemma ex_run_bad:
  "collect ex_lib ex_fs (Created ''bad.jsonl'' ''b.jsonl'') = ([], Some ex_decode_error)"
proof -
  have "sorted_log_generator_next ex_lib ex_fs (Created ''bad.jsonl'' ''b.jsonl'') =
      Inl ex_decode_error"
    by (simp add: ex_files open_rb_def file_lines_file_of ex_texts_one_line next_log_def
        ex_loads_values)
  then show ?thesis by (rule collect_error)
qed

lemma ex_run_ab:
  "collect ex_lib ex_fs (Created ''a.jsonl'' ''b.jsonl'') = ([rec_a1, rec_b1, rec_b2], None)"
  using collect_created_merge[OF ex_files(1) ex_files(2) ex_decodes(1) ex_decodes(2), of]
  by (simp add: ex_valid ex_time_le)

section \<open>The claims of the specification\<close>

text \<open>
  Claim C1 (order property). When every line of both input files decodes to a
  well-formed record and each file is in timestamp order, the run of
  \<^verbatim>\<open>sorted_log_generator\<close> ends without an exception and the instants of the records
  it yields never decrease: the yielded sequence is sorted by instant, and each
  yielded record is not later than the record yielded right after it.
\<close>

theorem merged_output_ordered:
  assumes "files s p1 = Some b1" and "files s p2 = Some b2"
    and "decodes L b1 recs1" and "decodes L b2 recs2"
    and "list_all (valid_record L) recs1" and "list_all (valid_record L) recs2"
    and "sorted_wrt (time_le L) recs1" and "sorted_wrt (time_le L) recs2"
  shows "snd (collect L s (Created p1 p2)) = None \<and>
         sorted_wrt (time_le L) (fst (collect L s (Created p1 p2))) \<and>
         (\<forall>i. Suc i < length (fst (collect L s (Created p1 p2))) \<longrightarrow>
            time_le L (fst (collect L s (Created p1 p2)) ! i)
              (fst (collect L s (Created p1 p2)) ! Suc i))"
proof -
  have c: "collect L s (Created p1 p2) = (merge_recs L recs1 recs2, None)"
    by (rule collect_created_merge[OF assms(1-6)])
  have so: "sorted_wrt (time_le L) (merge_recs L recs1 recs2)"
    by (rule sorted_merge_recs[OF assms(5-8)])
  then have "\<forall>i. Suc i < length (merge_recs L recs1 recs2) \<longrightarrow>
      time_le L (merge_recs L recs1 recs2 ! i) (merge_recs L recs1 recs2 ! Suc i)"
    by (simp add: sorted_wrt_iff_nth_less)
  with c so show ?thesis by simp
qed

theorem merged_output_ordered_witness:
  "snd (collect ex_lib ex_fs (Created ''a.jsonl'' ''b.jsonl'')) = None \<and>
   sorted_wrt (time_le ex_lib) (fst (collect ex_lib ex_fs (Created ''a.jsonl'' ''b.jsonl''))) \<and>
   fst (collect ex_lib ex_fs (Created ''a.jsonl'' ''b.jsonl'')) = [rec_a1, rec_b1, rec_b2]"
proof -
  have v1: "list_all (valid_record ex_lib) [rec_a1]"
    and v2: "list_all (valid_record ex_lib) [rec_b1, rec_b2]"
    by (simp_all add: ex_valid)
  have s1: "sorted_wrt (time_le ex_lib) [rec_a1]"
    and s2: "sorted_wrt (time_le ex_lib) [rec_b1, rec_b2]"
    by (simp_all add: ex_time_le)
  show ?thesis
    using merged_output_ordered[OF ex_files(1) ex_files(2) ex_decodes(1) ex_decodes(2) v1 v2 s1 s2]
    by (simp add: ex_run_ab)
qed

text \<open>
  Claim C2 (tie-break). At a step of the loop where both peek slots hold a record
  and the two instants are equal, the record of the first input file is the one
  yielded; the record of the second file stays in its slot for a later step.
\<close>

theorem tie_yields_first_input:
  assumes "truthy file_log1" and "truthy file_log2"
    and "get_log_time L file_log1 = Inr t" and "get_log_time L file_log2 = Inr t"
  shows "while_loop L g1 g2 file_log1 file_log2 =
           Inr (Some (file_log1, Yielded1 g1 g2 file_log2))"
  using assms by (simp add: while_loop_unfold)

theorem tie_yields_first_input_witness:
  "while_loop ex_lib [] [text_b2 @ [CHR 0x0A]] rec_a1 rec_b1 =
     Inr (Some (rec_a1, Yielded1 [] [text_b2 @ [CHR 0x0A]] rec_b1))"
  using tie_yields_first_input[OF ex_truthy(1) ex_truthy(2) ex_times_values(1) ex_times_values(2)]
  by simp



text \<open>
  Claim C4 (exhaustion). An empty file is a left and a right identity of the
  merge: with a file of well-formed records as the other input, the run yields
  the records of that file, in the order of the file, and ends without an
  exception. The other file need not be in timestamp order, nor non-empty.
\<close>

theorem empty_file_is_identity:
  assumes "files s p_empty = Some []" and "files s p = Some b"
    and "decodes L b recs" and "list_all (valid_record L) recs"
  shows "collect L s (Created p_empty p) = (recs, None) \<and>
         collect L s (Created p p_empty) = (recs, None)"
proof -
  have d0: "decodes L [] []" by (simp add: decodes_def file_lines_def)
  have v0: "list_all (valid_record L) []" by simp
  have "collect L s (Created p_empty p) = (merge_recs L [] recs, None)"
    by (rule collect_created_merge[OF assms(1,2) d0 assms(3) v0 assms(4)])
  moreover have "collect L s (Created p p_empty) = (merge_recs L recs [], None)"
    by (rule collect_created_merge[OF assms(2,1,3) d0 assms(4) v0])
  ultimately show ?thesis by (simp add: merge_recs_Nil2)
qed

theorem empty_file_is_identity_witness:
  "collect ex_lib ex_fs (Created ''empty.jsonl'' ''b.jsonl'') = ([rec_b1, rec_b2], None) \<and>
   collect ex_lib ex_fs (Created ''b.jsonl'' ''empty.jsonl'') = ([rec_b1, rec_b2], None)"
proof -
  have v2: "list_all (valid_record ex_lib) [rec_b1, rec_b2]" by (simp add: ex_valid)
  show ?thesis
    by (rule empty_file_is_identity[OF ex_files(3) ex_files(2) ex_decodes(2) v2])
qed

text \<open>
  Claim C5 (no clobber). When the output directory path exists already,
  \<^verbatim>\<open>create_output_file\<close> raises \<^verbatim>\<open>FileExistsError\<close> at once: the file system is as it
  was and the generator it was given has not been pulled, so no input has been
  opened. A run of the program with such an output path ends with a
  \<^verbatim>\<open>FileExistsError\<close> and leaves the file system as it was; the message is that of
  \<^verbatim>\<open>create_output_file\<close> when both inputs are files, and that of the input check of
  \<^verbatim>\<open>main\<close> otherwise.
\<close>

theorem existing_output_dir_untouched:
  assumes "exists s output_dir"
  shows "create_output_file L s output_dir g =
           (Inl (FileExistsError (''Folder \"'' @ output_dir @ ''\" already exists.'')), s, g) \<and>
         main L s p1 p2 output_dir =
           (Inl (FileExistsError
              (if is_file s p1 \<and> is_file s p2
               then ''Folder \"'' @ output_dir @ ''\" already exists.''
               else ''Log files do not exist or paths are incorrect.'')), s)"
  using assms by (simp add: create_output_file_def main_def)

theorem existing_output_dir_untouched_witness:
  "create_output_file ex_lib ex_fs ''merged'' (Created ''a.jsonl'' ''b.jsonl'') =
     (Inl (FileExistsError ''Folder \"merged\" already exists.''), ex_fs,
      Created ''a.jsonl'' ''b.jsonl'') \<and>
   main ex_lib ex_fs ''a.jsonl'' ''b.jsonl'' ''merged'' =
     (Inl (FileExistsError ''Folder \"merged\" already exists.''), ex_fs)"
proof -
  have e: "exists ex_fs ''merged''" by (simp add: exists_def ex_fs_def)
  show ?thesis
    using existing_output_dir_untouched[OF e, of ex_lib "Created ''a.jsonl'' ''b.jsonl''"
        "''a.jsonl''" "''b.jsonl''"]
    by (simp add: is_file_def ex_files)
qed

text \<open>
  Claim C6 (no rollback). When the output directory does not exist and the run of
  the generator fails with an exception after having yielded the records \<open>rs\<close>
  (a file that cannot be opened, a line that does not decode, a record whose
  instant cannot be extracted), \<^verbatim>\<open>create_output_file\<close> fails with that exception and
  pulls nothing more. Nothing is undone: the output directory is there, every
  directory that was there still is, and the output file holds exactly the
  encoded lines of \<open>rs\<close>. The statement is for output paths none of whose ancestors
  is a regular file: there \<^verbatim>\<open>mkdir\<close> itself fails in Python, before anything is
  merged.
\<close>

theorem failed_merge_keeps_written_prefix:
  assumes "\<not> exists s output_dir"
    and "list_all (\<lambda>a. files s a = None) (parents output_dir)"
    and "collect L (open_wb (mkdir s output_dir) (path_join output_dir LOG_FILENAME)) g =
           (rs, Some err)"
  shows "fst (create_output_file L s output_dir g) = Inl err \<and>
         snd (snd (create_output_file L s output_dir g)) = Closed \<and>
         files (fst (snd (create_output_file L s output_dir g))) =
           (files s)(path_join output_dir LOG_FILENAME \<mapsto> encode_lines L rs) \<and>
         output_dir \<in> dirs (fst (snd (create_output_file L s output_dir g))) \<and>
         dirs s \<subseteq> dirs (fst (snd (create_output_file L s output_dir g)))"
proof -
  let ?p = "path_join output_dir LOG_FILENAME"
  let ?s0 = "open_wb (mkdir s output_dir) ?p"
  have fp: "files ?s0 ?p = Some []" by (simp add: open_wb_def)
  have w: "files (write_all L ?s0 ?p rs) = (files s)(?p \<mapsto> encode_lines L rs)"
    using files_write_all[OF fp, of L rs] by (simp add: open_wb_def mkdir_def)
  have d: "dirs (write_all L ?s0 ?p rs) = insert output_dir (set (parents output_dir) \<union> dirs s)"
    by (simp add: dirs_write_all open_wb_def mkdir_def)
  have "create_output_file L s output_dir g = (Inl err, write_all L ?s0 ?p rs, Closed)"
    using create_output_file_collect[OF assms(1), of L g] assms(3) by (simp add: outcome_def)
  with w d show ?thesis by auto
qed

theorem failed_merge_keeps_written_prefix_witness:
  "fst (create_output_file ex_lib ex_fs ''x/y/out'' (Created ''a.jsonl'' ''bad2.jsonl'')) =
     Inl ex_decode_error \<and>
   files
     (fst (snd (create_output_file ex_lib ex_fs ''x/y/out'' (Created ''a.jsonl'' ''bad2.jsonl''))))
     ''x/y/out/merged_log.jsonl'' = Some (file_of [text_a1, text_b1]) \<and>
   ''x/y/out'' \<in>
     dirs (fst (snd (create_output_file ex_lib ex_fs ''x/y/out''
       (Created ''a.jsonl'' ''bad2.jsonl'')))) \<and>
   ''merged'' \<in>
     dirs (fst (snd (create_output_file ex_lib ex_fs ''x/y/out''
       (Created ''a.jsonl'' ''bad2.jsonl''))))"
proof -
  have ne: "\<not> exists ex_fs ''x/y/out''" by (simp add: exists_def ex_fs_def)
  have pa: "parents ''x/y/out'' = [''x'', ''x/y'']" by (simp add: parents_def)
  have an: "list_all (\<lambda>a. files ex_fs a = None) (parents ''x/y/out'')"
    by (simp add: pa ex_fs_def)
  have p: "path_join ''x/y/out'' LOG_FILENAME = ''x/y/out/merged_log.jsonl''"
    by (simp add: path_join_def LOG_FILENAME_def)
  have c: "collect ex_lib (open_wb (mkdir ex_fs ''x/y/out'') (path_join ''x/y/out'' LOG_FILENAME))
      (Created ''a.jsonl'' ''bad2.jsonl'') = ([rec_a1, rec_b1], Some ex_decode_error)"
    by (rule ex_run_bad2) (simp_all add: p open_wb_def mkdir_def ex_files)
  have e: "encode_lines ex_lib [rec_a1, rec_b1] = file_of [text_a1, text_b1]"
    by (simp add: encode_lines_def file_of_def ex_dumps_values)
  have d: "''merged'' \<in> dirs ex_fs" by (simp add: ex_fs_def)
  show ?thesis
    using failed_merge_keeps_written_prefix[OF ne an c] d by (auto simp: p e)
qed

text \<open>
  Claim C7 (decode failure), as the code has it. A line that \<^verbatim>\<open>json.loads\<close> rejects is
  not skipped: the reader raises the exception of \<^verbatim>\<open>json.loads\<close> unchanged,
  \<^verbatim>\<open>next_log\<close> lets it pass, and the merge ends with it at the pull that reads the
  line, whichever input the line is in: a later line of either file, the first
  line of the first file, or the first line of the second file once the first
  file has given its first record. The exception is a function of the bytes of
  the line alone.
\<close>

theorem decode_error_passes_unchanged:
  assumes "json_loads L line = Inl e"
  shows "open_file_generator_next L (line # rest) = Inl e \<and>
         next_log L (line # rest) = Inl e \<and>
         collect L s (Yielded1 (line # rest) g2 file_log2) = ([], Some e) \<and>
         collect L s (Yielded2 g1 (line # rest) file_log1) = ([], Some e) \<and>
         (files s p1 = Some b1 \<and> file_lines b1 = line # rest \<longrightarrow>
            collect L s (Created p1 p2) = ([], Some e)) \<and>
         (files s p1 = Some b1 \<and> next_log L (file_lines b1) = Inr (file_log1, g1) \<and>
          files s p2 = Some b2 \<and> file_lines b2 = line # rest \<longrightarrow>
            collect L s (Created p1 p2) = ([], Some e))"
proof -
  have n: "next_log L (line # rest) = Inl e" using assms by (simp add: next_log_def)
  have "sorted_log_generator_next L s (Yielded1 (line # rest) g2 file_log2) = Inl e"
    using n by simp
  then have c1: "collect L s (Yielded1 (line # rest) g2 file_log2) = ([], Some e)"
    by (rule collect_error)
  have "sorted_log_generator_next L s (Yielded2 g1 (line # rest) file_log1) = Inl e"
    using n by simp
  then have c2: "collect L s (Yielded2 g1 (line # rest) file_log1) = ([], Some e)"
    by (rule collect_error)
  have c3: "collect L s (Created p1 p2) = ([], Some e)"
    if "files s p1 = Some b1" and "file_lines b1 = line # rest"
  proof -
    have "sorted_log_generator_next L s (Created p1 p2) = Inl e"
      using that n by (simp add: open_rb_def)
    then show ?thesis by (rule collect_error)
  qed
  have c4: "collect L s (Created p1 p2) = ([], Some e)"
    if "files s p1 = Some b1" and "next_log L (file_lines b1) = Inr (file_log1, g1)"
      and "files s p2 = Some b2" and "file_lines b2 = line # rest"
  proof -
    have "sorted_log_generator_next L s (Created p1 p2) = Inl e"
      using that n by (simp add: open_rb_def)
    then show ?thesis by (rule collect_error)
  qed
  show ?thesis using assms n c1 c2 c3 c4 by simp
qed

theorem decode_error_passes_unchanged_witness:
  "next_log ex_lib [text_bad @ [CHR 0x0A], text_b2 @ [CHR 0x0A]] = Inl ex_decode_error \<and>
   collect ex_lib ex_fs (Yielded2 [] [text_bad @ [CHR 0x0A], text_b2 @ [CHR 0x0A]] JNull) =
     ([], Some ex_decode_error) \<and>
   collect ex_lib ex_fs (Created ''bad.jsonl'' ''b.jsonl'') = ([], Some ex_decode_error)"
proof -
  have l: "file_lines (file_of [text_bad]) = (text_bad @ [CHR 0x0A]) # []"
    by (simp add: file_lines_file_of ex_texts_one_line)
  have "next_log ex_lib [text_bad @ [CHR 0x0A], text_b2 @ [CHR 0x0A]] = Inl ex_decode_error \<and>
      collect ex_lib ex_fs (Yielded2 [] [text_bad @ [CHR 0x0A], text_b2 @ [CHR 0x0A]] JNull) =
        ([], Some ex_decode_error)"
    using decode_error_passes_unchanged[OF ex_loads_values(5),
        where rest = "[text_b2 @ [CHR 0x0A]]" and s = ex_fs and ?file_log1.0 = JNull
          and ?g1.0 = "[]"]
    by simp
  moreover have "collect ex_lib ex_fs (Created ''bad.jsonl'' ''b.jsonl'') =
      ([], Some ex_decode_error)"
    using decode_error_passes_unchanged[OF ex_loads_values(5),
        where rest = "[]" and s = ex_fs and ?p1.0 = "''bad.jsonl''" and ?p2.0 = "''b.jsonl''"
          and ?b1.0 = "file_of [text_bad]"]
      ex_files(5) l
    by simp
  ultimately show ?thesis by simp
qed

text \<open>
  The exception of a line that does not decode names neither the file nor the
  line: the same line fails with the same exception as line 1 of the first input
  and as line 2 of the second input.
\<close>

theorem decode_error_names_no_source:
  "collect ex_lib ex_fs (Created ''bad.jsonl'' ''b.jsonl'') = ([], Some ex_decode_error) \<and>
   collect ex_lib ex_fs (Created ''a.jsonl'' ''bad2.jsonl'') =
     ([rec_a1, rec_b1], Some ex_decode_error)"
  by (simp add: ex_run_bad ex_run_bad2 ex_files)

text \<open>
  Claim C8 (timestamp failures), as the code has it. For a dict without the key
  \<^verbatim>\<open>'timestamp'\<close>, \<^verbatim>\<open>get\<close> gives \<^verbatim>\<open>None\<close> and \<^verbatim>\<open>strptime\<close> raises a \<^verbatim>\<open>TypeError\<close>; a value
  that is present but is not a string raises the \<^verbatim>\<open>TypeError\<close> of its type, which
  for \<^verbatim>\<open>null\<close> is the one of the missing key; for a string the outcome is that of
  \<^verbatim>\<open>strptime\<close> on it with the fixed format. The extractor is a function of the
  record. In the loop nothing catches its exception: when both slots hold a
  record and one extraction fails, the pull fails with that exception.
\<close>

theorem get_log_time_failures:
  "(map_of kvs ''timestamp'' = None \<longrightarrow>
      get_log_time L (JObject kvs) =
        Inl (TypeError ''strptime() argument 1 must be str, not None'')) \<and>
   (map_of kvs ''timestamp'' = Some v \<longrightarrow>
      get_log_time L (JObject kvs) =
        (case v of
           JString x \<Rightarrow> strptime L x DATE_TIME_FORMAT
         | _ \<Rightarrow> Inl (TypeError (''strptime() argument 1 must be str, not '' @ type_name v)))) \<and>
   (truthy a \<and> truthy b \<and> get_log_time L a = Inl e \<longrightarrow> while_loop L ga gb a b = Inl e) \<and>
   (truthy a \<and> truthy b \<and> get_log_time L a = Inr t \<and> get_log_time L b = Inl e \<longrightarrow>
      while_loop L ga gb a b = Inl e)"
proof (intro conjI impI)
  assume "map_of kvs ''timestamp'' = None"
  then have "dict_get (JObject kvs) ''timestamp'' = Inr JNull" by simp
  then show "get_log_time L (JObject kvs) =
      Inl (TypeError ''strptime() argument 1 must be str, not None'')"
    by (simp add: get_log_time_def)
next
  assume "map_of kvs ''timestamp'' = Some v"
  then have "get_log_time L (JObject kvs) = datetime_strptime L v DATE_TIME_FORMAT"
    by (simp add: get_log_time_def)
  then show "get_log_time L (JObject kvs) =
      (case v of
         JString x \<Rightarrow> strptime L x DATE_TIME_FORMAT
       | _ \<Rightarrow> Inl (TypeError (''strptime() argument 1 must be str, not '' @ type_name v)))"
    by (cases v) simp_all
next
  assume "truthy a \<and> truthy b \<and> get_log_time L a = Inl e"
  then show "while_loop L ga gb a b = Inl e" by (simp add: while_loop_unfold)
next
  assume "truthy a \<and> truthy b \<and> get_log_time L a = Inr t \<and> get_log_time L b = Inl e"
  then show "while_loop L ga gb a b = Inl e" by (simp add: while_loop_unfold)
qed

theorem get_log_time_failures_witness:
  "get_log_time ex_lib (JObject [(''m'', JString ''x'')]) =
     Inl (TypeError ''strptime() argument 1 must be str, not None'') \<and>
   get_log_time ex_lib (JObject [(''timestamp'', JInt 5)]) =
     Inl (TypeError ''strptime() argument 1 must be str, not int'') \<and>
   while_loop ex_lib [] [] (JObject [(''m'', JString ''x'')]) rec_b1 =
     Inl (TypeError ''strptime() argument 1 must be str, not None'') \<and>
   while_loop ex_lib [] [] rec_a1 (JObject [(''m'', JString ''x'')]) =
     Inl (TypeError ''strptime() argument 1 must be str, not None'')"
proof -
  let ?e = "TypeError ''strptime() argument 1 must be str, not None''"
  let ?r = "JObject [(''m'', JString ''x'')]"
  have g: "get_log_time ex_lib ?r = Inl ?e"
    using get_log_time_failures[where kvs = "[(''m'', JString ''x'')]" and L = ex_lib] by simp
  have i: "get_log_time ex_lib (JObject [(''timestamp'', JInt 5)]) =
      Inl (TypeError ''strptime() argument 1 must be str, not int'')"
    using get_log_time_failures[where kvs = "[(''timestamp'', JInt 5)]" and L = ex_lib
        and v = "JInt 5"] by simp
  have w1: "while_loop ex_lib [] [] ?r rec_b1 = Inl ?e"
    using get_log_time_failures[where a = ?r and b = rec_b1 and L = ex_lib and e = ?e
        and ga = "[]" and gb = "[]"] g ex_truthy by simp
  have w2: "while_loop ex_lib [] [] rec_a1 ?r = Inl ?e"
    using get_log_time_failures[where a = rec_a1 and b = ?r and L = ex_lib and e = ?e
        and ga = "[]" and gb = "[]" and t = "(2024, 1, 1, 10, 0, 0)"]
      g ex_truthy ex_times_values by simp
  show ?thesis using g i w1 w2 by simp
qed

text \<open>
  A record without the key and a record whose \<^verbatim>\<open>'timestamp'\<close> is present but is
  \<^verbatim>\<open>null\<close> fail with one and the same exception: the failure does not tell a missing
  field from a value that is not in the format.
\<close>

theorem missing_and_null_timestamp_fail_alike:
  "get_log_time ex_lib (JObject [(''m'', JString ''x'')]) =
     Inl (TypeError ''strptime() argument 1 must be str, not None'') \<and>
   get_log_time ex_lib (JObject [(''timestamp'', JNull)]) =
     Inl (TypeError ''strptime() argument 1 must be str, not None'')"
  by (simp add: get_log_time_def)

text \<open>
  Claim C9 (inputs checked first). When one of the two input paths is not a
  regular file, the program raises the exception of its input check,
  \<^verbatim>\<open>FileExistsError('Log files do not exist or paths are incorrect.')\<close>, and the file
  system is as it was: no directory made, no file created, nothing merged.
\<close>

theorem missing_input_fails_first:
  assumes "\<not> (is_file s path_to_log1 \<and> is_file s path_to_log2)"
  shows "main L s path_to_log1 path_to_log2 path_to_merged_log =
           (Inl (FileExistsError ''Log files do not exist or paths are incorrect.''), s)"
  using assms by (auto simp: main_def)

theorem missing_input_fails_first_witness:
  "main ex_lib ex_fs ''a.jsonl'' ''nowhere.jsonl'' ''out'' =
     (Inl (FileExistsError ''Log files do not exist or paths are incorrect.''), ex_fs)"
proof -
  have "\<not> (is_file ex_fs ''a.jsonl'' \<and> is_file ex_fs ''nowhere.jsonl'')"
    by (simp add: is_file_def ex_fs_def)
  then show ?thesis by (rule missing_input_fails_first)
qed

text \<open>
  Claim C10 (a false record ends its source). The loop tests the truth value of
  the peeked record, so a line that decodes to a false value, such as the empty
  dict \<^verbatim>\<open>{}\<close>, is taken for the end of its file: the run on a file with such a line
  is the run on the file cut before that line, with the same yielded records and
  the same end. The record itself and the lines after it are never yielded, and
  the lines after it are never decoded.
\<close>

theorem false_record_ends_its_source:
  assumes "json_loads L l = Inr v" and "\<not> truthy v"
    and "files s p1 = Some b1" and "files s p2 = Some b2"
    and "files s' p1' = Some b1'" and "files s' p2' = Some b2'"
    and "(file_lines b1 = file_lines b1' @ l # post \<and> file_lines b2 = file_lines b2') \<or>
         (file_lines b1 = file_lines b1' \<and> file_lines b2 = file_lines b2' @ l # post)"
  shows "collect L s (Created p1 p2) = collect L s' (Created p1' p2')"
proof -
  have "tail_cut L (file_lines b1) (file_lines b1') \<and> tail_cut L (file_lines b2) (file_lines b2')"
    using assms(1,2,7) by (auto simp: tail_cut_def)
  then show ?thesis using created_rel[OF assms(3-6)] by simp
qed

theorem false_record_ends_its_source_witness:
  "collect ex_lib ex_fs (Created ''cut.jsonl'' ''b.jsonl'') =
     collect ex_lib ex_fs (Created ''a.jsonl'' ''b.jsonl'') \<and>
   collect ex_lib ex_fs (Created ''cut.jsonl'' ''b.jsonl'') = ([rec_a1, rec_b1, rec_b2], None)"
proof -
  have f: "\<not> truthy (JObject [])" by simp
  have l: "file_lines (file_of [text_a1, text_empty, text_b2]) =
      file_lines (file_of [text_a1]) @ (text_empty @ [CHR 0x0A]) # [text_b2 @ [CHR 0x0A]] \<and>
      file_lines (file_of [text_b1, text_b2]) = file_lines (file_of [text_b1, text_b2]) \<or>
      file_lines (file_of [text_a1, text_empty, text_b2]) = file_lines (file_of [text_a1]) \<and>
      file_lines (file_of [text_b1, text_b2]) =
        file_lines (file_of [text_b1, text_b2]) @ (text_empty @ [CHR 0x0A]) # [text_b2 @ [CHR 0x0A]]"
    by (simp add: file_lines_file_of ex_texts_one_line)
  show ?thesis
    using false_record_ends_its_source[OF ex_loads_values(4) f ex_files(4) ex_files(2)
        ex_files(1) ex_files(2) l]
    by (simp add: ex_run_ab)
qed

end
